theory Spec2Isabelle
  imports Main "HOL-Library.Word"
begin

section \<open>The bounded FIFO queue of \<^verbatim>\<open>fifo_queue.hpp\<close>\<close>

text \<open>
  The class \<^verbatim>\<open>Perun::FifoQueue<T>\<close> guards a \<^verbatim>\<open>std::deque<T>\<close> and a flag with one
  mutex and two condition variables. Every member function reads and writes the
  fields only while it holds the mutex, so the shared state changes in atomic
  critical sections. The embedding has one function per member function; it maps
  the fields at the start of a critical section to
  \<^item> how the caller leaves the section (it returns a \<^verbatim>\<open>FifoError\<close>, or it suspends in
    \<^verbatim>\<open>wait\<close> on a condition variable),
  \<^item> the element moved into the caller's out-parameter, if any,
  \<^item> the fields at the end of the section,
  \<^item> the notifications the caller issues after the section.
\<close>

subsection \<open>Data\<close>

datatype FifoError = OK | Destroyed | Full | Empty | NotFound | Timeouted

text \<open>
  The fields: \<^verbatim>\<open>const int64_t max_size\<close>, \<^verbatim>\<open>std::deque<T> _storage\<close> (head of the list
  is \<^verbatim>\<open>front()\<close>) and \<^verbatim>\<open>volatile bool _is_valid = true\<close>. Isabelle names cannot start
  with an underscore, so the last two lose it.
\<close>

record 'a FifoQueue =
  max_size :: "64 word"
  storage :: "'a list"
  is_valid :: bool

datatype condvar = c_pop_blocking_on | c_push_blockin_on

datatype notification = notify_one condvar | notify_all condvar

datatype cv_status = no_timeout | timeout

datatype control = Return FifoError | Wait condvar

record 'a effect =
  control :: control
  out_value :: "'a option"
  queue :: "'a FifoQueue"
  notified :: "notification list"

text \<open>An early \<^verbatim>\<open>return e\<close> inside the critical section: nothing moved, nothing notified.\<close>

definition returns :: "FifoError \<Rightarrow> 'a FifoQueue \<Rightarrow> 'a effect" where
  "returns e q = \<lparr>control = Return e, out_value = None, queue = q, notified = []\<rparr>"

text \<open>\<^verbatim>\<open>cv.wait(guard)\<close>: the caller releases the mutex and suspends; the fields are as they were.\<close>

definition waits :: "condvar \<Rightarrow> 'a FifoQueue \<Rightarrow> 'a effect" where
  "waits c q = \<lparr>control = Wait c, out_value = None, queue = q, notified = []\<rparr>"

subsection \<open>Construction and observers\<close>

text \<open>
  \<^verbatim>\<open>FifoQueue(int64_t max_size = std::numeric_limits<int64_t>::max()) : max_size(max_size) { }\<close>
\<close>

definition FifoQueue_ctor :: "64 word \<Rightarrow> 'a FifoQueue" where
  "FifoQueue_ctor m = \<lparr>max_size = m, storage = [], is_valid = True\<rparr>"

definition int64_max :: "64 word" where
  "int64_max = 9223372036854775807"

definition FifoQueue_default :: "'a FifoQueue" where
  "FifoQueue_default = FifoQueue_ctor int64_max"

definition running :: "'a FifoQueue \<Rightarrow> bool" where
  "running q = is_valid q"

text \<open>\<^verbatim>\<open>int64_t size()\<close> returns \<^verbatim>\<open>_storage.size()\<close> converted to \<^verbatim>\<open>int64_t\<close>.\<close>

definition size_queue :: "'a FifoQueue \<Rightarrow> 64 word" where
  "size_queue q = word_of_nat (length (storage q))"

text \<open>
  The test \<^verbatim>\<open>_storage.size() >= max_size\<close> compares a \<^verbatim>\<open>size_t\<close> with an \<^verbatim>\<open>int64_t\<close>. On
  a platform with a 64-bit \<^verbatim>\<open>size_t\<close> the usual arithmetic conversions turn the signed
  operand into \<^verbatim>\<open>uint64_t\<close>, so a negative \<^verbatim>\<open>max_size\<close> is read as a number of at least
  \<open>2 ^ 63\<close>. The number of elements of a deque is below \<open>2 ^ 64\<close> and is its own
  \<^verbatim>\<open>size_t\<close> value.
\<close>

definition size_ge_max_size :: "'a FifoQueue \<Rightarrow> bool" where
  "size_ge_max_size q \<longleftrightarrow> unat (max_size q) \<le> length (storage q)"

subsection \<open>Producers\<close>

text \<open>
  \<^verbatim>\<open>try_push(T const&)\<close> and \<^verbatim>\<open>try_push(T&&)\<close> differ only in copying or moving the argument
  into the deque (\<^verbatim>\<open>push_back(value)\<close>, \<^verbatim>\<open>emplace_back(std::move(value))\<close>).
\<close>

definition try_push :: "'a \<Rightarrow> 'a FifoQueue \<Rightarrow> 'a effect" where
  "try_push v q =
     (if \<not> is_valid q then returns Destroyed q
      else if size_ge_max_size q then returns Full q
      else \<lparr>control = Return OK, out_value = None,
            queue = q\<lparr>storage := storage q @ [v]\<rparr>,
            notified = [notify_one c_pop_blocking_on]\<rparr>)"

text \<open>
  \<^verbatim>\<open>push\<close> (both overloads). A caller woken from \<^verbatim>\<open>_c_push_blockin_on.wait\<close> holds the
  mutex again, tests \<^verbatim>\<open>_is_valid\<close> and then the loop condition: the same two tests, in
  the same order, as at entry. So one function gives the critical section that
  starts at entry and the one that starts at a wake-up (spurious or not).
\<close>

definition push :: "'a \<Rightarrow> 'a FifoQueue \<Rightarrow> 'a effect" where
  "push v q =
     (if \<not> is_valid q then returns Destroyed q
      else if size_ge_max_size q then waits c_push_blockin_on q
      else \<lparr>control = Return OK, out_value = None,
            queue = q\<lparr>storage := storage q @ [v]\<rparr>,
            notified = [notify_one c_pop_blocking_on]\<rparr>)"

subsection \<open>Consumers\<close>

definition try_pop :: "'a FifoQueue \<Rightarrow> 'a effect" where
  "try_pop q =
     (if \<not> is_valid q then returns Destroyed q
      else case storage q of
        [] \<Rightarrow> returns Empty q
      | x # xs \<Rightarrow> \<lparr>control = Return OK, out_value = Some x,
                   queue = q\<lparr>storage := xs\<rparr>,
                   notified = [notify_one c_push_blockin_on]\<rparr>)"

text \<open>
  \<^verbatim>\<open>pop(T&)\<close>: the loop \<^verbatim>\<open>while(_storage.empty())\<close> tests \<^verbatim>\<open>_is_valid\<close> before it waits,
  and the flag is tested once more after the loop, before the head is moved out.
  A woken caller is back at the loop head, which is also where the entry starts.
\<close>

definition pop :: "'a FifoQueue \<Rightarrow> 'a effect" where
  "pop q =
     (case storage q of
        [] \<Rightarrow> (if \<not> is_valid q then returns Destroyed q
               else waits c_pop_blocking_on q)
      | x # xs \<Rightarrow>
          (if \<not> is_valid q then returns Destroyed q
           else \<lparr>control = Return OK, out_value = Some x,
                 queue = q\<lparr>storage := xs\<rparr>,
                 notified = [notify_one c_push_blockin_on]\<rparr>))"

text \<open>
  \<^verbatim>\<open>pop(T&, std::chrono::milliseconds)\<close>: the same loop with \<^verbatim>\<open>wait_until\<close>. The
  section at entry is \<open>pop_timeout\<close>; the one after \<^verbatim>\<open>wait_until\<close> has returned is
  \<open>pop_timeout_wake\<close>, which takes what \<^verbatim>\<open>wait_until\<close> returned.
\<close>

definition pop_timeout :: "'a FifoQueue \<Rightarrow> 'a effect" where
  "pop_timeout q =
     (case storage q of
        [] \<Rightarrow> (if \<not> is_valid q then returns Destroyed q
               else waits c_pop_blocking_on q)
      | x # xs \<Rightarrow>
          (if \<not> is_valid q then returns Destroyed q
           else \<lparr>control = Return OK, out_value = Some x,
                 queue = q\<lparr>storage := xs\<rparr>,
                 notified = [notify_one c_push_blockin_on]\<rparr>))"

definition pop_timeout_wake :: "cv_status \<Rightarrow> 'a FifoQueue \<Rightarrow> 'a effect" where
  "pop_timeout_wake st q =
     (if st = timeout then returns Timeouted q else pop_timeout q)"

subsection \<open>Lifecycle and selective removal\<close>

text \<open>The two functions returning \<^verbatim>\<open>void\<close> give the fields and the notifications.\<close>

definition close :: "'a FifoQueue \<Rightarrow> 'a FifoQueue \<times> notification list" where
  "close q =
     (q\<lparr>is_valid := False\<rparr>,
      [notify_all c_pop_blocking_on, notify_all c_push_blockin_on])"

text \<open>
  \<^verbatim>\<open>std::erase_if(_storage, f)\<close> of the standard library removes every element on
  which \<^verbatim>\<open>f\<close> is true and keeps the others in their order.
\<close>

definition erase_if :: "('a \<Rightarrow> bool) \<Rightarrow> 'a FifoQueue \<Rightarrow> 'a FifoQueue \<times> notification list" where
  "erase_if f q = (q\<lparr>storage := filter (\<lambda>x. \<not> f x) (storage q)\<rparr>, [])"

text \<open>
  The loop of \<^verbatim>\<open>get\<close>, with the iterator as an index into the deque: at the first
  position where \<^verbatim>\<open>f\<close> holds, the element is moved out and erased at that position.
\<close>

function get_loop :: "('a \<Rightarrow> bool) \<Rightarrow> 'a list \<Rightarrow> nat \<Rightarrow> ('a \<times> 'a list) option" where
  "get_loop f s it =
     (if it < length s then
        (if f (s ! it) then Some (s ! it, take it s @ drop (Suc it) s)
         else get_loop f s (Suc it))
      else None)"
  by pat_completeness auto
termination
  by (relation "measure (\<lambda>(f, s, it). length s - it)") auto

declare get_loop.simps [simp del]

definition get :: "('a \<Rightarrow> bool) \<Rightarrow> 'a FifoQueue \<Rightarrow> 'a effect" where
  "get f q =
     (if \<not> is_valid q then returns Destroyed q
      else case get_loop f (storage q) 0 of
        Some (v, s') \<Rightarrow> \<lparr>control = Return OK, out_value = Some v,
                         queue = q\<lparr>storage := s'\<rparr>, notified = []\<rparr>
      | None \<Rightarrow> returns NotFound q)"

subsection \<open>Sequences of critical sections\<close>

text \<open>
  The mutex serialises the critical sections of all threads, so what any number of
  threads do to a queue is a list of sections, each the entry of a member function
  or the resumption of a blocked one.
\<close>

datatype 'a call =
    Try_push 'a
  | Push 'a
  | Try_pop
  | Pop
  | Pop_timeout
  | Pop_timeout_wake cv_status
  | Close
  | Running
  | Erase_if "'a \<Rightarrow> bool"
  | Size
  | Get "'a \<Rightarrow> bool"

fun exec :: "'a call \<Rightarrow> 'a FifoQueue \<Rightarrow> 'a FifoQueue" where
  "exec (Try_push v) q = queue (try_push v q)"
| "exec (Push v) q = queue (push v q)"
| "exec Try_pop q = queue (try_pop q)"
| "exec Pop q = queue (pop q)"
| "exec Pop_timeout q = queue (pop_timeout q)"
| "exec (Pop_timeout_wake st) q = queue (pop_timeout_wake st q)"
| "exec Close q = fst (close q)"
| "exec Running q = q"
| "exec (Erase_if f) q = fst (erase_if f q)"
| "exec Size q = q"
| "exec (Get f) q = queue (get f q)"

fun run :: "'a call list \<Rightarrow> 'a FifoQueue \<Rightarrow> 'a FifoQueue" where
  "run [] q = q"
| "run (c # cs) q = run cs (exec c q)"

subsection \<open>What a list of critical sections appends and hands out\<close>

text \<open>
  A producer's section appends its argument exactly when it returns \<open>OK\<close>. A consumer's
  section that returns \<open>OK\<close> hands the caller the element in its out-parameter.
\<close>

fun appended :: "'a call \<Rightarrow> 'a FifoQueue \<Rightarrow> 'a list" where
  "appended (Try_push v) q = (if control (try_push v q) = Return OK then [v] else [])"
| "appended (Push v) q = (if control (push v q) = Return OK then [v] else [])"
| "appended c q = []"

definition moved_out :: "'a effect \<Rightarrow> 'a list" where
  "moved_out e =
     (if control e = Return OK then (case out_value e of Some v \<Rightarrow> [v] | None \<Rightarrow> [])
      else [])"

fun delivered :: "'a call \<Rightarrow> 'a FifoQueue \<Rightarrow> 'a list" where
  "delivered Try_pop q = moved_out (try_pop q)"
| "delivered Pop q = moved_out (pop q)"
| "delivered Pop_timeout q = moved_out (pop_timeout q)"
| "delivered (Pop_timeout_wake st) q = moved_out (pop_timeout_wake st q)"
| "delivered c q = []"

text \<open>The values of the successful pushes of a list of sections, and those of its successful pops, in order.\<close>

fun pushed :: "'a call list \<Rightarrow> 'a FifoQueue \<Rightarrow> 'a list" where
  "pushed [] q = []"
| "pushed (c # cs) q = appended c q @ pushed cs (exec c q)"

fun popped :: "'a call list \<Rightarrow> 'a FifoQueue \<Rightarrow> 'a list" where
  "popped [] q = []"
| "popped (c # cs) q = delivered c q @ popped cs (exec c q)"

text \<open>The two member functions that remove elements from any position.\<close>

fun selective :: "'a call \<Rightarrow> bool" where
  "selective (Get f) = True"
| "selective (Erase_if f) = True"
| "selective c = False"

section \<open>Properties\<close>

lemma queue_returns: "queue (returns e q) = q"
  by (simp add: returns_def)

lemma queue_waits: "queue (waits c q) = q"
  by (simp add: waits_def)

subsection \<open>Signed and unsigned readings of a 64-bit field\<close>

lemma sint_lt64: "sint (m :: 64 word) < 2 ^ 63"
  using sint_lt [of m] by simp

lemma sint_word_of_nat_small:
  "n < 2 ^ 63 \<Longrightarrow> sint (word_of_nat n :: 64 word) = int n"
proof -
  assume "n < 2 ^ 63"
  then have b: "int n < 2 ^ 63" by (metis of_nat_less_numeral_power_cancel_iff)
  have "sint (word_of_nat n :: 64 word) = signed_take_bit 63 (int n)"
    by (simp add: signed_of_nat)
  also have "\<dots> = int n" using b by (simp add: signed_take_bit_int_eq_self_iff)
  finally show ?thesis .
qed

lemma unat_nonneg:
  "0 \<le> sint (m :: 64 word) \<Longrightarrow> unat m = nat (sint m)"
proof -
  assume nn: "0 \<le> sint m"
  have "sint m < 2 ^ 64" using sint_lt64 [of m] by simp
  with nn have "take_bit 64 (sint m) = sint m" by (simp add: take_bit_int_eq_self)
  then have "uint m = sint m" using uint_sint [of m] by simp
  then show ?thesis by (simp add: unat_eq_nat_uint)
qed

subsection \<open>The scan of \<^verbatim>\<open>get\<close>\<close>

lemma get_loop_None:
  "(\<forall>j. it \<le> j \<and> j < length s \<longrightarrow> \<not> f (s ! j)) \<Longrightarrow> get_loop f s it = None"
proof (induction f s it rule: get_loop.induct)
  case (1 f s it)
  show ?case
  proof (cases "it < length s")
    case True
    with "1.prems" have nf: "\<not> f (s ! it)" by simp
    from "1.prems" have "\<forall>j. Suc it \<le> j \<and> j < length s \<longrightarrow> \<not> f (s ! j)" by simp
    with "1.IH" True nf have "get_loop f s (Suc it) = None" by blast
    with True nf show ?thesis by (subst get_loop.simps) simp
  next
    case False
    then show ?thesis by (subst get_loop.simps) simp
  qed
qed

lemma get_loop_Some:
  "get_loop f s it = Some (v, s') \<Longrightarrow>
     \<exists>i. it \<le> i \<and> i < length s \<and> f (s ! i) \<and> (\<forall>j. it \<le> j \<and> j < i \<longrightarrow> \<not> f (s ! j))
        \<and> v = s ! i \<and> s' = take i s @ drop (Suc i) s"
proof (induction f s it rule: get_loop.induct)
  case (1 f s it)
  from "1.prems" have lt: "it < length s"
    by (subst (asm) get_loop.simps) (simp split: if_splits)
  show ?case
  proof (cases "f (s ! it)")
    case True
    with lt "1.prems" have "v = s ! it \<and> s' = take it s @ drop (Suc it) s"
      by (subst (asm) get_loop.simps) simp
    with lt True show ?thesis by auto
  next
    case False
    with lt "1.prems" have "get_loop f s (Suc it) = Some (v, s')"
      by (subst (asm) get_loop.simps) simp
    with "1.IH" lt False obtain i where i: "Suc it \<le> i" "i < length s" "f (s ! i)"
      "\<forall>j. Suc it \<le> j \<and> j < i \<longrightarrow> \<not> f (s ! j)" "v = s ! i" "s' = take i s @ drop (Suc i) s"
      by blast
    have "\<forall>j. it \<le> j \<and> j < i \<longrightarrow> \<not> f (s ! j)"
    proof (intro allI impI)
      fix j assume "it \<le> j \<and> j < i"
      then show "\<not> f (s ! j)" using i(4) False by (cases "j = it") auto
    qed
    with i show ?thesis by (intro exI [of _ i]) simp
  qed
qed

lemma get_loop_NoneD:
  "get_loop f s it = None \<Longrightarrow> it \<le> j \<Longrightarrow> j < length s \<Longrightarrow> \<not> f (s ! j)"
proof (induction f s it rule: get_loop.induct)
  case (1 f s it)
  from "1.prems" have lt: "it < length s" by simp
  with "1.prems"(1) have nf: "\<not> f (s ! it)"
    by (subst (asm) get_loop.simps) (simp split: if_splits)
  with lt "1.prems"(1) have rest: "get_loop f s (Suc it) = None"
    by (subst (asm) get_loop.simps) simp
  show ?case
  proof (cases "j = it")
    case True
    with nf show ?thesis by simp
  next
    case False
    with "1.prems" have "Suc it \<le> j" by simp
    with "1.IH" lt nf rest "1.prems"(3) show ?thesis by blast
  qed
qed

lemma get_loop_first:
  assumes "\<forall>y \<in> set pre. \<not> f y" and "f x"
  shows "get_loop f (pre @ x # post) 0 = Some (x, pre @ post)"
proof (cases "get_loop f (pre @ x # post) 0")
  case None
  from get_loop_NoneD [OF None, of "length pre"] have "\<not> f x" by simp
  with assms(2) show ?thesis by simp
next
  case (Some r)
  obtain v s' where r: "r = (v, s')" by (cases r)
  from get_loop_Some [OF Some [unfolded r]] obtain i where
    i: "i < length (pre @ x # post)" "f ((pre @ x # post) ! i)"
       "\<forall>j. 0 \<le> j \<and> j < i \<longrightarrow> \<not> f ((pre @ x # post) ! j)"
       "v = (pre @ x # post) ! i" "s' = take i (pre @ x # post) @ drop (Suc i) (pre @ x # post)"
    by blast
  have "\<not> i < length pre"
  proof
    assume l: "i < length pre"
    then have "(pre @ x # post) ! i = pre ! i" by (simp add: nth_append)
    with i(2) l assms(1) show False by (metis nth_mem)
  qed
  moreover have "\<not> length pre < i"
  proof
    assume "length pre < i"
    with i(3) have "\<not> f ((pre @ x # post) ! length pre)" by blast
    with assms(2) show False by simp
  qed
  ultimately have "i = length pre" by simp
  with i(4,5) r Some show ?thesis by simp
qed

subsection \<open>The non-blocking calls\<close>

text \<open>
  C6: \<open>try_pop\<close> on a closed queue returns \<open>Destroyed\<close> (the specification's \<open>Closed\<close>) at
  once, also when the storage is not empty; on an open empty queue it returns \<open>Empty\<close>; on
  an open queue with head \<open>x\<close> it returns \<open>OK\<close>, hands \<open>x\<close> to the caller and drops it from
  the storage.
\<close>

theorem try_pop_cases:
  "(\<not> is_valid q \<longrightarrow>
      control (try_pop q) = Return Destroyed \<and> out_value (try_pop q) = None
      \<and> queue (try_pop q) = q)
   \<and> (is_valid q \<and> storage q = [] \<longrightarrow>
      control (try_pop q) = Return Empty \<and> out_value (try_pop q) = None
      \<and> queue (try_pop q) = q)
   \<and> (is_valid q \<and> storage q = x # xs \<longrightarrow>
      control (try_pop q) = Return OK \<and> out_value (try_pop q) = Some x
      \<and> queue (try_pop q) = q\<lparr>storage := xs\<rparr>)"
  by (simp add: try_pop_def returns_def)

text \<open>
  The three cases of C6 at a closed queue holding 7 and 8, at an open empty queue and at
  an open queue holding 7 and 8.
\<close>

theorem try_pop_cases_witness:
  "control (try_pop \<lparr>max_size = 2, storage = [7 :: int, 8], is_valid = False\<rparr>) = Return Destroyed
   \<and> storage (queue (try_pop \<lparr>max_size = 2, storage = [7 :: int, 8], is_valid = False\<rparr>)) = [7, 8]
   \<and> control (try_pop \<lparr>max_size = 2, storage = [] :: int list, is_valid = True\<rparr>) = Return Empty
   \<and> control (try_pop \<lparr>max_size = 2, storage = [7 :: int, 8], is_valid = True\<rparr>) = Return OK
   \<and> out_value (try_pop \<lparr>max_size = 2, storage = [7 :: int, 8], is_valid = True\<rparr>) = Some 7
   \<and> storage (queue (try_pop \<lparr>max_size = 2, storage = [7 :: int, 8], is_valid = True\<rparr>)) = [8]"
  using
    try_pop_cases [of "\<lparr>max_size = 2, storage = [7 :: int, 8], is_valid = False\<rparr>" 7 "[8]"]
    try_pop_cases [of "\<lparr>max_size = 2, storage = [] :: int list, is_valid = True\<rparr>" 7 "[8]"]
    try_pop_cases [of "\<lparr>max_size = 2, storage = [7 :: int, 8], is_valid = True\<rparr>" 7 "[8]"]
  by simp

text \<open>
  C8: a non-blocking call that fails leaves the queue as it was. \<open>try_push\<close> on an open
  queue whose length equals its capacity returns \<open>Full\<close>, and \<open>try_pop\<close> on an open empty
  queue returns \<open>Empty\<close>; in both cases the fields after the call are the fields before.
\<close>

theorem failed_try_keeps_storage:
  "(is_valid q \<and> int (length (storage q)) = sint (max_size q) \<longrightarrow>
      control (try_push v q) = Return Full \<and> queue (try_push v q) = q
      \<and> storage (queue (try_push v q)) = storage q)
   \<and> (is_valid q \<and> storage q = [] \<longrightarrow>
      control (try_pop q) = Return Empty \<and> queue (try_pop q) = q
      \<and> storage (queue (try_pop q)) = storage q)"
proof -
  have "size_ge_max_size q" if "int (length (storage q)) = sint (max_size q)"
  proof -
    from that have "0 \<le> sint (max_size q)" by simp
    then have "unat (max_size q) = nat (sint (max_size q))" by (rule unat_nonneg)
    with that show ?thesis by (simp add: size_ge_max_size_def)
  qed
  then show ?thesis by (simp add: try_push_def try_pop_def returns_def)
qed

text \<open>
  C8 at a queue of capacity 2 that holds 1 and 2, and at an empty queue of capacity 2.
\<close>

theorem failed_try_keeps_storage_witness:
  "is_valid \<lparr>max_size = 2, storage = [1 :: int, 2], is_valid = True\<rparr>
   \<and> int (length (storage \<lparr>max_size = 2, storage = [1 :: int, 2], is_valid = True\<rparr>))
       = sint (max_size \<lparr>max_size = 2, storage = [1 :: int, 2], is_valid = True\<rparr>)
   \<and> control (try_push 3 \<lparr>max_size = 2, storage = [1 :: int, 2], is_valid = True\<rparr>) = Return Full
   \<and> storage (queue (try_push 3 \<lparr>max_size = 2, storage = [1 :: int, 2], is_valid = True\<rparr>)) = [1, 2]
   \<and> control (try_pop \<lparr>max_size = 2, storage = [] :: int list, is_valid = True\<rparr>) = Return Empty
   \<and> storage (queue (try_pop \<lparr>max_size = 2, storage = [] :: int list, is_valid = True\<rparr>)) = []"
  using
    failed_try_keeps_storage [of "\<lparr>max_size = 2, storage = [1 :: int, 2], is_valid = True\<rparr>" 3]
    failed_try_keeps_storage [of "\<lparr>max_size = 2, storage = [] :: int list, is_valid = True\<rparr>" 3]
  by simp

subsection \<open>The blocking consumer after \<open>close\<close>\<close>

text \<open>
  C1 as the specification states it fails: \<open>pop\<close> on a queue that was closed while it held
  1 and 2 returns \<open>Destroyed\<close>, not \<open>OK\<close>, and hands nothing to the caller. The test after
  the loop, \<^verbatim>\<open>if(!_is_valid) return FifoError::Destroyed;\<close>, decides it, and the test case
  \<^verbatim>\<open>[fifo] close\<close> requires it.
\<close>

theorem pop_closed_nonempty_counterexample:
  "control (pop (fst (close \<lparr>max_size = 2, storage = [1 :: int, 2], is_valid = True\<rparr>)))
     = Return Destroyed
   \<and> control (pop (fst (close \<lparr>max_size = 2, storage = [1 :: int, 2], is_valid = True\<rparr>)))
     \<noteq> Return OK
   \<and> out_value (pop (fst (close \<lparr>max_size = 2, storage = [1 :: int, 2], is_valid = True\<rparr>)))
     = None
   \<and> storage (queue (pop (fst (close \<lparr>max_size = 2, storage = [1 :: int, 2], is_valid = True\<rparr>))))
     = [1, 2]"
  by (simp add: pop_def close_def returns_def)

text \<open>
  C1, amended: on every closed queue, empty or not, \<open>pop\<close> returns \<open>Destroyed\<close>, hands
  nothing to the caller, notifies nobody and leaves the fields as they were; and \<open>close\<close>
  itself keeps the storage, so no element that was enqueued is discarded.
\<close>

theorem pop_closed_returns_Destroyed:
  "(\<not> is_valid q \<longrightarrow>
      control (pop q) = Return Destroyed \<and> out_value (pop q) = None
      \<and> queue (pop q) = q \<and> notified (pop q) = [])
   \<and> storage (fst (close q)) = storage q \<and> \<not> is_valid (fst (close q))"
  by (simp add: pop_def close_def returns_def split: list.split)

text \<open>The amended C1 at the queue that was closed while it held 1 and 2.\<close>

theorem pop_closed_returns_Destroyed_witness:
  "\<not> is_valid (fst (close \<lparr>max_size = 2, storage = [1 :: int, 2], is_valid = True\<rparr>))
   \<and> control (pop (fst (close \<lparr>max_size = 2, storage = [1 :: int, 2], is_valid = True\<rparr>)))
       = Return Destroyed
   \<and> queue (pop (fst (close \<lparr>max_size = 2, storage = [1 :: int, 2], is_valid = True\<rparr>)))
       = \<lparr>max_size = 2, storage = [1, 2], is_valid = False\<rparr>"
  using
    pop_closed_returns_Destroyed
      [of "fst (close \<lparr>max_size = 2, storage = [1 :: int, 2], is_valid = True\<rparr>)"]
    pop_closed_returns_Destroyed
      [of "\<lparr>max_size = 2, storage = [1 :: int, 2], is_valid = True\<rparr>"]
  by (simp add: close_def)

subsection \<open>Construction\<close>

text \<open>
  C2 as the specification states it fails: the constructor takes any \<^verbatim>\<open>int64_t\<close> and
  tests nothing, so capacities 0 and -3 give a queue, open, with that capacity.
\<close>

theorem ctor_nonpositive_counterexample:
  "is_valid (FifoQueue_ctor 0 :: int FifoQueue)
   \<and> sint (max_size (FifoQueue_ctor 0 :: int FifoQueue)) = 0
   \<and> \<not> 1 \<le> sint (max_size (FifoQueue_ctor 0 :: int FifoQueue))
   \<and> is_valid (FifoQueue_ctor (- 3) :: int FifoQueue)
   \<and> sint (max_size (FifoQueue_ctor (- 3) :: int FifoQueue)) = - 3
   \<and> \<not> 1 \<le> sint (max_size (FifoQueue_ctor (- 3) :: int FifoQueue))"
  by (simp add: FifoQueue_ctor_def)

text \<open>
  C2, amended: construction accepts every 64-bit signed capacity, zero and negative ones
  too; the queue it gives is open and empty and has the argument as its capacity, also
  when no argument is given and the capacity is the largest \<^verbatim>\<open>int64_t\<close>.
\<close>

theorem ctor_accepts_any_capacity:
  "max_size (FifoQueue_ctor m) = m
   \<and> sint (max_size (FifoQueue_ctor m)) = sint m
   \<and> storage (FifoQueue_ctor m) = []
   \<and> running (FifoQueue_ctor m)
   \<and> sint (max_size FifoQueue_default) = 2 ^ 63 - 1"
  by (simp add: FifoQueue_ctor_def FifoQueue_default_def int64_max_def running_def)

subsection \<open>Selective removal\<close>

text \<open>
  C10: \<open>erase_if\<close> never reads the flag and returns \<^verbatim>\<open>void\<close>, so it has no status with
  which to report a closed queue. On a closed queue it still removes every element on
  which the predicate holds, keeps the others in their order and leaves the queue closed.
\<close>

theorem erase_if_on_closed_queue:
  "\<not> is_valid q \<Longrightarrow>
     storage (fst (erase_if f q)) = filter (\<lambda>x. \<not> f x) (storage q)
     \<and> (\<forall>x \<in> set (storage (fst (erase_if f q))). \<not> f x)
     \<and> \<not> is_valid (fst (erase_if f q))
     \<and> max_size (fst (erase_if f q)) = max_size q"
  by (simp add: erase_if_def)

text \<open>
  C10 at a closed queue holding 1, 2, 3, 4 with the predicate "is even": the storage is
  changed to 1, 3.
\<close>

theorem erase_if_on_closed_queue_witness:
  "\<not> is_valid \<lparr>max_size = 8, storage = [1 :: int, 2, 3, 4], is_valid = False\<rparr>
   \<and> storage (fst (erase_if (\<lambda>x. x mod 2 = 0)
         \<lparr>max_size = 8, storage = [1 :: int, 2, 3, 4], is_valid = False\<rparr>)) = [1, 3]
   \<and> storage (fst (erase_if (\<lambda>x. x mod 2 = 0)
         \<lparr>max_size = 8, storage = [1 :: int, 2, 3, 4], is_valid = False\<rparr>))
       \<noteq> storage \<lparr>max_size = 8, storage = [1 :: int, 2, 3, 4], is_valid = False\<rparr>"
  using erase_if_on_closed_queue
    [of "\<lparr>max_size = 8, storage = [1 :: int, 2, 3, 4], is_valid = False\<rparr>" "\<lambda>x. x mod 2 = 0"]
  by simp

text \<open>
  C5: on an open queue \<open>get\<close> splits the storage at the first element \<open>x\<close> on which the
  predicate holds (no element of \<open>pre\<close> satisfies it), returns \<open>OK\<close> with \<open>x\<close> and leaves
  \<open>pre @ post\<close>, so the other elements keep their order; when no element satisfies the
  predicate it returns \<open>NotFound\<close> and changes nothing. After pushing 1, 2, 3, 4, 5 into a
  queue of the default capacity, \<open>get\<close> with "equals 3" returns \<open>OK\<close> and 3, the size is 4
  and 1, 2, 4, 5 remain.
\<close>

theorem get_first_match:
  "(is_valid q \<and> storage q = pre @ x # post \<and> (\<forall>y \<in> set pre. \<not> f y) \<and> f x \<longrightarrow>
      control (get f q) = Return OK \<and> out_value (get f q) = Some x
      \<and> queue (get f q) = q\<lparr>storage := pre @ post\<rparr>)
   \<and> (is_valid q \<and> (\<forall>y \<in> set (storage q). \<not> f y) \<longrightarrow>
      control (get f q) = Return NotFound \<and> out_value (get f q) = None
      \<and> queue (get f q) = q)
   \<and> control (get (\<lambda>x. x = 3)
        (run [Push 1, Push 2, Push 3, Push 4, Push (5 :: int)] FifoQueue_default)) = Return OK
   \<and> out_value (get (\<lambda>x. x = 3)
        (run [Push 1, Push 2, Push 3, Push 4, Push (5 :: int)] FifoQueue_default)) = Some 3
   \<and> size_queue (queue (get (\<lambda>x. x = 3)
        (run [Push 1, Push 2, Push 3, Push 4, Push (5 :: int)] FifoQueue_default))) = 4
   \<and> storage (queue (get (\<lambda>x. x = 3)
        (run [Push 1, Push 2, Push 3, Push 4, Push (5 :: int)] FifoQueue_default))) = [1, 2, 4, 5]"
proof -
  have found: "control (get f q) = Return OK \<and> out_value (get f q) = Some x
      \<and> queue (get f q) = q\<lparr>storage := pre @ post\<rparr>"
    if "is_valid q" "storage q = pre @ x # post" "\<forall>y \<in> set pre. \<not> f y" "f x"
  proof -
    from that(3,4) have "get_loop f (pre @ x # post) 0 = Some (x, pre @ post)"
      by (rule get_loop_first)
    with that(1,2) show ?thesis by (simp add: get_def)
  qed
  have missing: "control (get f q) = Return NotFound \<and> out_value (get f q) = None
      \<and> queue (get f q) = q"
    if "is_valid q" "\<forall>y \<in> set (storage q). \<not> f y"
  proof -
    from that(2) have "\<forall>j. 0 \<le> j \<and> j < length (storage q) \<longrightarrow> \<not> f (storage q ! j)"
      by simp
    then have "get_loop f (storage q) 0 = None" by (rule get_loop_None)
    with that(1) show ?thesis by (simp add: get_def returns_def)
  qed
  have pushed5: "run [Push 1, Push 2, Push 3, Push 4, Push (5 :: int)] FifoQueue_default
      = \<lparr>max_size = int64_max, storage = [1, 2, 3, 4, 5], is_valid = True\<rparr>"
    by (simp add: FifoQueue_default_def FifoQueue_ctor_def push_def size_ge_max_size_def
        int64_max_def)
  have scan: "get_loop (\<lambda>x. x = 3) [1, 2, 3, 4, 5 :: int] 0 = Some (3, [1, 2, 4, 5])"
    by (simp add: get_loop.simps)
  have scenario: "control (get (\<lambda>x. x = 3)
        (run [Push 1, Push 2, Push 3, Push 4, Push (5 :: int)] FifoQueue_default)) = Return OK
   \<and> out_value (get (\<lambda>x. x = 3)
        (run [Push 1, Push 2, Push 3, Push 4, Push (5 :: int)] FifoQueue_default)) = Some 3
   \<and> size_queue (queue (get (\<lambda>x. x = 3)
        (run [Push 1, Push 2, Push 3, Push 4, Push (5 :: int)] FifoQueue_default))) = 4
   \<and> storage (queue (get (\<lambda>x. x = 3)
        (run [Push 1, Push 2, Push 3, Push 4, Push (5 :: int)] FifoQueue_default))) = [1, 2, 4, 5]"
    unfolding pushed5 by (simp add: get_def scan size_queue_def)
  from found missing scenario show ?thesis by blast
qed

text \<open>
  C5 at the queue of the scenario, split as \<open>[1, 2] @ 3 # [4, 5]\<close>, and at the same queue
  with the predicate "equals 9", which no element satisfies.
\<close>

theorem get_first_match_witness:
  "is_valid \<lparr>max_size = 8, storage = [1 :: int, 2, 3, 4, 5], is_valid = True\<rparr>
   \<and> control (get (\<lambda>x. x = 3) \<lparr>max_size = 8, storage = [1 :: int, 2, 3, 4, 5], is_valid = True\<rparr>)
       = Return OK
   \<and> out_value (get (\<lambda>x. x = 3) \<lparr>max_size = 8, storage = [1 :: int, 2, 3, 4, 5], is_valid = True\<rparr>)
       = Some 3
   \<and> queue (get (\<lambda>x. x = 3) \<lparr>max_size = 8, storage = [1 :: int, 2, 3, 4, 5], is_valid = True\<rparr>)
       = \<lparr>max_size = 8, storage = [1, 2, 4, 5], is_valid = True\<rparr>
   \<and> control (get (\<lambda>x. x = 9) \<lparr>max_size = 8, storage = [1 :: int, 2, 3, 4, 5], is_valid = True\<rparr>)
       = Return NotFound
   \<and> queue (get (\<lambda>x. x = 9) \<lparr>max_size = 8, storage = [1 :: int, 2, 3, 4, 5], is_valid = True\<rparr>)
       = \<lparr>max_size = 8, storage = [1, 2, 3, 4, 5], is_valid = True\<rparr>"
  using
    get_first_match [of "\<lparr>max_size = 8, storage = [1 :: int, 2, 3, 4, 5], is_valid = True\<rparr>"
      "[1, 2]" 3 "[4, 5]" "\<lambda>x. x = 3"]
    get_first_match [of "\<lparr>max_size = 8, storage = [1 :: int, 2, 3, 4, 5], is_valid = True\<rparr>"
      "[1, 2]" 3 "[4, 5]" "\<lambda>x. x = 9"]
  by simp

subsection \<open>Notifications\<close>

text \<open>
  What each member function notifies. The producers notify one waiter of
  \<^verbatim>\<open>_c_pop_blocking_on\<close> exactly when they return \<open>OK\<close>; \<open>try_pop\<close> and both \<open>pop\<close>s notify one
  waiter of \<^verbatim>\<open>_c_push_blockin_on\<close> exactly when they return \<open>OK\<close>; \<open>close\<close> notifies all
  waiters of both. \<open>get\<close> and \<open>erase_if\<close> contain no call of \<^verbatim>\<open>notify_one\<close> or
  \<^verbatim>\<open>notify_all\<close>.
\<close>

lemma push_notifies:
  "notified (push v q) = (if control (push v q) = Return OK then [notify_one c_pop_blocking_on] else [])"
  by (simp add: push_def returns_def waits_def)

lemma try_push_notifies:
  "notified (try_push v q)
     = (if control (try_push v q) = Return OK then [notify_one c_pop_blocking_on] else [])"
  by (simp add: try_push_def returns_def)

lemma try_pop_notifies:
  "notified (try_pop q)
     = (if control (try_pop q) = Return OK then [notify_one c_push_blockin_on] else [])"
  by (simp add: try_pop_def returns_def split: list.split)

lemma pop_notifies:
  "notified (pop q) = (if control (pop q) = Return OK then [notify_one c_push_blockin_on] else [])"
  by (simp add: pop_def returns_def waits_def split: list.split)

lemma pop_timeout_notifies:
  "notified (pop_timeout q)
     = (if control (pop_timeout q) = Return OK then [notify_one c_push_blockin_on] else [])"
  by (simp add: pop_timeout_def returns_def waits_def split: list.split)

lemma pop_timeout_wake_notifies:
  "notified (pop_timeout_wake st q)
     = (if control (pop_timeout_wake st q) = Return OK then [notify_one c_push_blockin_on] else [])"
  by (simp add: pop_timeout_wake_def pop_timeout_notifies) (simp add: returns_def)

lemma close_notifies:
  "snd (close q) = [notify_all c_pop_blocking_on, notify_all c_push_blockin_on]"
  by (simp add: close_def)

lemma get_notifies: "notified (get f q) = []"
  by (simp add: get_def returns_def split: option.split)

lemma erase_if_notifies: "snd (erase_if f q) = []"
  by (simp add: erase_if_def)

text \<open>
  C3 does not hold of \<open>get\<close> and \<open>erase_if\<close>. At a full open queue of capacity 2 that holds
  1 and 2, a producer calling \<open>push\<close> suspends on \<^verbatim>\<open>_c_push_blockin_on\<close>;
  \<open>get\<close> with "equals 1" returns \<open>OK\<close>, removes 1 and notifies nobody, and \<open>erase_if\<close> with
  the same predicate removes 1 and notifies nobody, whereas \<open>pop\<close> at the same queue
  notifies one producer. The slot that was freed is there, as the producer would be
  admitted if it ran again.
\<close>

theorem get_and_erase_if_notify_nobody:
  "control (push 3 \<lparr>max_size = 2, storage = [1 :: int, 2], is_valid = True\<rparr>)
     = Wait c_push_blockin_on
   \<and> control (get (\<lambda>x. x = 1) \<lparr>max_size = 2, storage = [1 :: int, 2], is_valid = True\<rparr>)
     = Return OK
   \<and> out_value (get (\<lambda>x. x = 1) \<lparr>max_size = 2, storage = [1 :: int, 2], is_valid = True\<rparr>)
     = Some 1
   \<and> storage (queue (get (\<lambda>x. x = 1) \<lparr>max_size = 2, storage = [1 :: int, 2], is_valid = True\<rparr>))
     = [2]
   \<and> notified (get (\<lambda>x. x = 1) \<lparr>max_size = 2, storage = [1 :: int, 2], is_valid = True\<rparr>)
     = []
   \<and> storage (fst (erase_if (\<lambda>x. x = 1) \<lparr>max_size = 2, storage = [1 :: int, 2], is_valid = True\<rparr>))
     = [2]
   \<and> snd (erase_if (\<lambda>x. x = 1) \<lparr>max_size = 2, storage = [1 :: int, 2], is_valid = True\<rparr>)
     = []
   \<and> notified (pop \<lparr>max_size = 2, storage = [1 :: int, 2], is_valid = True\<rparr>)
     = [notify_one c_push_blockin_on]
   \<and> control (push 3
        (queue (get (\<lambda>x. x = 1) \<lparr>max_size = 2, storage = [1 :: int, 2], is_valid = True\<rparr>)))
     = Return OK"
  by (simp add: push_def pop_def get_def erase_if_def size_ge_max_size_def waits_def
      get_loop.simps)

subsection \<open>The closed state\<close>

lemma exec_max_size: "max_size (exec c q) = max_size q"
  by (cases c)
    (simp_all add: try_push_def push_def try_pop_def pop_def pop_timeout_def
      pop_timeout_wake_def close_def erase_if_def get_def returns_def waits_def
      split: list.split option.split)

lemma run_max_size: "max_size (run cs q) = max_size q"
  by (induction cs arbitrary: q) (simp_all add: exec_max_size)

lemma exec_stays_closed: "\<not> is_valid q \<Longrightarrow> \<not> is_valid (exec c q)"
  by (cases c)
    (simp_all add: try_push_def push_def try_pop_def pop_def pop_timeout_def
      pop_timeout_wake_def close_def erase_if_def get_def returns_def waits_def
      split: list.split option.split)

lemma run_stays_closed: "\<not> is_valid q \<Longrightarrow> \<not> is_valid (run cs q)"
  by (induction cs arbitrary: q) (simp_all add: exec_stays_closed)

text \<open>
  C7: once \<open>close\<close> has run, \<open>running\<close> is false after every further list of critical
  sections, whatever member functions they belong to: none of them sets the flag. A
  second \<open>close\<close> leaves the fields as the first left them and notifies all waiters of
  both condition variables again.
\<close>

theorem closed_is_terminal:
  "\<not> running (run cs (fst (close q)))
   \<and> \<not> running (fst (close q))
   \<and> fst (close (fst (close q))) = fst (close q)
   \<and> snd (close (fst (close q))) = [notify_all c_pop_blocking_on, notify_all c_push_blockin_on]"
proof -
  have "\<not> is_valid (fst (close q))" by (simp add: close_def)
  then have "\<not> is_valid (run cs (fst (close q)))" by (rule run_stays_closed)
  then show ?thesis by (simp add: running_def close_def)
qed

subsection \<open>The size stays within the capacity\<close>

lemma get_shortens:
  assumes "get_loop f s it = Some (v, s')"
  shows "Suc (length s') = length s"
proof -
  from get_loop_Some [OF assms] obtain i where
    "i < length s" "s' = take i s @ drop (Suc i) s" by blast
  then show ?thesis by simp
qed

lemma append_within_capacity:
  assumes "1 \<le> sint (max_size q)" and "\<not> size_ge_max_size q"
  shows "int (length (storage q @ [v])) \<le> sint (max_size q)"
proof -
  from assms(1) have "unat (max_size q) = nat (sint (max_size q))"
    by (intro unat_nonneg) simp
  with assms(2) have "length (storage q) < nat (sint (max_size q))"
    by (simp add: size_ge_max_size_def)
  then show ?thesis by simp
qed

lemma exec_within_capacity:
  assumes "1 \<le> sint (max_size q)" and "int (length (storage q)) \<le> sint (max_size q)"
  shows "int (length (storage (exec c q))) \<le> sint (max_size q)"
proof (cases c)
  case (Try_push v)
  with assms append_within_capacity [OF assms(1), of v] show ?thesis
    by (simp add: try_push_def returns_def)
next
  case (Push v)
  with assms append_within_capacity [OF assms(1), of v] show ?thesis
    by (simp add: push_def returns_def waits_def)
next
  case Try_pop
  with assms show ?thesis
    by (auto simp: try_pop_def returns_def split: list.split)
next
  case Pop
  with assms show ?thesis
    by (auto simp: pop_def returns_def waits_def split: list.split)
next
  case Pop_timeout
  with assms show ?thesis
    by (auto simp: pop_timeout_def returns_def waits_def split: list.split)
next
  case (Pop_timeout_wake st)
  with assms show ?thesis
    by (auto simp: pop_timeout_wake_def pop_timeout_def returns_def waits_def split: list.split)
next
  case Close
  with assms show ?thesis by (simp add: close_def)
next
  case Running
  with assms show ?thesis by simp
next
  case (Erase_if f)
  have "length (filter (\<lambda>x. \<not> f x) (storage q)) \<le> length (storage q)"
    by (rule length_filter_le)
  with assms(2) have "int (length (filter (\<lambda>x. \<not> f x) (storage q))) \<le> sint (max_size q)"
    by linarith
  with Erase_if show ?thesis by (simp add: erase_if_def)
next
  case Size
  with assms show ?thesis by simp
next
  case (Get f)
  show ?thesis
  proof (cases "get_loop f (storage q) 0")
    case None
    with Get assms show ?thesis by (simp add: get_def returns_def)
  next
    case (Some r)
    obtain v s' where r: "r = (v, s')" by (cases r)
    from get_shortens [OF Some [unfolded r]] have "length s' \<le> length (storage q)" by simp
    with Get assms Some r show ?thesis by (simp add: get_def returns_def)
  qed
qed

lemma run_within_capacity:
  "1 \<le> sint (max_size q) \<Longrightarrow> int (length (storage q)) \<le> sint (max_size q) \<Longrightarrow>
     int (length (storage (run cs q))) \<le> sint (max_size q)"
proof (induction cs arbitrary: q)
  case Nil
  then show ?case by simp
next
  case (Cons c cs)
  from Cons.prems have "int (length (storage (exec c q))) \<le> sint (max_size (exec c q))"
    by (simp add: exec_max_size exec_within_capacity)
  with Cons.IH [of "exec c q"] Cons.prems(1) show ?case by (simp add: exec_max_size)
qed

text \<open>
  C4: a queue constructed with a capacity of at least 1 keeps that capacity and holds at
  most that many elements after every list of critical sections of its member functions;
  so \<open>size\<close>, read as the \<^verbatim>\<open>int64_t\<close> it returns, is between 0 and the capacity.
\<close>

theorem size_within_capacity:
  "1 \<le> sint m \<Longrightarrow>
     max_size (run cs (FifoQueue_ctor m)) = m
     \<and> int (length (storage (run cs (FifoQueue_ctor m)))) \<le> sint m
     \<and> sint (size_queue (run cs (FifoQueue_ctor m))) = int (length (storage (run cs (FifoQueue_ctor m))))
     \<and> 0 \<le> sint (size_queue (run cs (FifoQueue_ctor m)))
     \<and> sint (size_queue (run cs (FifoQueue_ctor m))) \<le> sint m"
proof -
  assume m: "1 \<le> sint m"
  let ?q = "run cs (FifoQueue_ctor m)"
  have cap: "max_size ?q = m" by (simp add: run_max_size FifoQueue_ctor_def)
  from m have "int (length (storage ?q)) \<le> sint (max_size (FifoQueue_ctor m :: 'a FifoQueue))"
    by (intro run_within_capacity) (simp_all add: FifoQueue_ctor_def)
  then have len: "int (length (storage ?q)) \<le> sint m" by (simp add: FifoQueue_ctor_def)
  with sint_lt64 [of m] have "length (storage ?q) < 2 ^ 63"
    by (metis le_less_trans of_nat_less_numeral_power_cancel_iff)
  then have "sint (size_queue ?q) = int (length (storage ?q))"
    unfolding size_queue_def by (rule sint_word_of_nat_small)
  with cap len show ?thesis by simp
qed

text \<open>
  C4 at a queue of capacity 2 after three calls of \<open>try_push\<close>, a \<open>push\<close>, a \<open>pop\<close> and
  another \<open>push\<close>.
\<close>

theorem size_within_capacity_witness:
  "(1 :: int) \<le> sint (2 :: 64 word)
   \<and> max_size (run [Try_push 1, Try_push 2, Try_push 3, Push 4, Pop, Push 5]
        (FifoQueue_ctor 2 :: int FifoQueue)) = 2
   \<and> 0 \<le> sint (size_queue (run [Try_push 1, Try_push 2, Try_push 3, Push 4, Pop, Push 5]
        (FifoQueue_ctor 2 :: int FifoQueue)))
   \<and> sint (size_queue (run [Try_push 1, Try_push 2, Try_push 3, Push 4, Pop, Push 5]
        (FifoQueue_ctor 2 :: int FifoQueue))) \<le> 2"
  using size_within_capacity
    [of 2 "[Try_push (1 :: int), Try_push 2, Try_push 3, Push 4, Pop, Push 5]"]
  by simp

subsection \<open>First in, first out\<close>

lemma exec_fifo:
  "\<not> selective c \<Longrightarrow> storage q @ appended c q = delivered c q @ storage (exec c q)"
  by (cases c)
    (simp_all add: try_push_def push_def try_pop_def pop_def pop_timeout_def
      pop_timeout_wake_def close_def moved_out_def returns_def waits_def
      split: list.split)

lemma run_fifo:
  "\<forall>c \<in> set cs. \<not> selective c \<Longrightarrow>
     storage q @ pushed cs q = popped cs q @ storage (run cs q)"
proof (induction cs arbitrary: q)
  case Nil
  then show ?case by simp
next
  case (Cons c cs)
  from Cons.prems have c: "\<not> selective c" and cs: "\<forall>c \<in> set cs. \<not> selective c" by simp_all
  have "storage q @ pushed (c # cs) q = (storage q @ appended c q) @ pushed cs (exec c q)"
    by simp
  also have "\<dots> = delivered c q @ (storage (exec c q) @ pushed cs (exec c q))"
    using exec_fifo [OF c, of q] by simp
  also have "\<dots> = delivered c q @ (popped cs (exec c q) @ storage (run cs (exec c q)))"
    using Cons.IH [OF cs, of "exec c q"] by simp
  finally show ?case by simp
qed

lemma pushes_keep_open: "is_valid q \<Longrightarrow> is_valid (run (map Push vs) q)"
  by (induction vs arbitrary: q) (simp_all add: push_def returns_def waits_def)

lemma pushes_deliver_nothing: "popped (map Push vs) q = []"
  by (induction vs arbitrary: q) simp_all

lemma pops_drain:
  "is_valid q \<Longrightarrow> n = length (storage q) \<Longrightarrow>
     popped (replicate n Pop) q = storage q \<and> storage (run (replicate n Pop) q) = []"
proof (induction n arbitrary: q)
  case 0
  then show ?case by simp
next
  case (Suc n)
  from Suc.prems(2) obtain x xs where s: "storage q = x # xs"
    by (cases "storage q") simp_all
  with Suc.prems have e: "exec Pop q = q\<lparr>storage := xs\<rparr>" "delivered Pop q = [x]"
    by (simp_all add: pop_def moved_out_def)
  from Suc.prems s have "popped (replicate n Pop) (q\<lparr>storage := xs\<rparr>) = xs
      \<and> storage (run (replicate n Pop) (q\<lparr>storage := xs\<rparr>)) = []"
    using Suc.IH [of "q\<lparr>storage := xs\<rparr>"] by simp
  with e s show ?case by simp
qed

text \<open>
  C9: in every list of critical sections of producers, consumers, \<open>close\<close> and the
  observers, the values handed out by the successful pops, followed by what is left in
  the storage, are the initial storage followed by the values of the successful pushes,
  in the order of the appends; so the pops of a queue that started empty return the
  pushed values in that order, each once. When all of \<open>vs\<close> are pushed with success into
  an open empty queue, as many pops then return exactly \<open>vs\<close> and empty the queue. A
  successful \<open>push\<close> of \<open>v\<close> into an open empty queue followed by \<open>pop\<close> returns \<open>OK\<close> and \<open>v\<close>.
\<close>

theorem pops_return_pushes_in_order:
  "((\<forall>c \<in> set cs. \<not> selective c) \<longrightarrow>
      storage q @ pushed cs q = popped cs q @ storage (run cs q))
   \<and> (is_valid q \<and> storage q = [] \<and> pushed (map Push vs) q = vs \<longrightarrow>
      popped (replicate (length vs) Pop) (run (map Push vs) q) = vs
      \<and> storage (run (replicate (length vs) Pop) (run (map Push vs) q)) = [])
   \<and> (is_valid q \<and> storage q = [] \<and> control (push v q) = Return OK \<longrightarrow>
      control (pop (queue (push v q))) = Return OK
      \<and> out_value (pop (queue (push v q))) = Some v)"
proof -
  have seq: "popped (replicate (length vs) Pop) (run (map Push vs) q) = vs
      \<and> storage (run (replicate (length vs) Pop) (run (map Push vs) q)) = []"
    if "is_valid q" "storage q = []" "pushed (map Push vs) q = vs"
  proof -
    have "\<forall>c \<in> set (map Push vs). \<not> selective c" by simp
    then have "storage q @ pushed (map Push vs) q
        = popped (map Push vs) q @ storage (run (map Push vs) q)"
      by (rule run_fifo)
    with that(2,3) have st: "storage (run (map Push vs) q) = vs"
      by (simp add: pushes_deliver_nothing)
    from that(1) have "is_valid (run (map Push vs) q)" by (rule pushes_keep_open)
    from pops_drain [OF this, of "length vs"] st show ?thesis by simp
  qed
  have one: "control (pop (queue (push v q))) = Return OK
      \<and> out_value (pop (queue (push v q))) = Some v"
    if "is_valid q" "storage q = []" "control (push v q) = Return OK"
    using that by (simp add: push_def pop_def returns_def waits_def split: if_splits)
  from run_fifo [of cs q] seq one show ?thesis by blast
qed

text \<open>
  C9 at a queue of capacity 2: an interleaving in which the third push finds the queue
  full and suspends, and is resumed after a pop; three pushes followed by three pops at
  capacity 3; and one push followed by one pop.
\<close>

theorem pops_return_pushes_in_order_witness:
  "list_all (\<lambda>c. \<not> selective c)
       [Push (1 :: int), Push 2, Push 3, Pop, Push 3, Try_pop, Close, Pop]
   \<and> storage (FifoQueue_ctor 2) @ pushed [Push (1 :: int), Push 2, Push 3, Pop, Push 3, Try_pop, Close, Pop]
         (FifoQueue_ctor 2)
       = popped [Push (1 :: int), Push 2, Push 3, Pop, Push 3, Try_pop, Close, Pop] (FifoQueue_ctor 2)
         @ storage (run [Push (1 :: int), Push 2, Push 3, Pop, Push 3, Try_pop, Close, Pop]
             (FifoQueue_ctor 2))
   \<and> pushed (map Push [1 :: int, 2, 3]) (FifoQueue_ctor 3) = [1, 2, 3]
   \<and> popped (replicate (length [1 :: int, 2, 3]) Pop)
         (run (map Push [1 :: int, 2, 3]) (FifoQueue_ctor 3)) = [1, 2, 3]
   \<and> control (push (13 :: int) (FifoQueue_ctor 2)) = Return OK
   \<and> out_value (pop (queue (push (13 :: int) (FifoQueue_ctor 2)))) = Some 13"
proof -
  have h1: "pushed (map Push [1 :: int, 2, 3]) (FifoQueue_ctor 3) = [1, 2, 3]"
    by (simp add: FifoQueue_ctor_def push_def size_ge_max_size_def)
  have h2: "control (push (13 :: int) (FifoQueue_ctor 2)) = Return OK"
    by (simp add: FifoQueue_ctor_def push_def size_ge_max_size_def)
  have h3: "is_valid (FifoQueue_ctor n :: int FifoQueue)
      \<and> storage (FifoQueue_ctor n :: int FifoQueue) = []" for n
    by (simp add: FifoQueue_ctor_def)
  have h4: "\<forall>c \<in> set [Push (1 :: int), Push 2, Push 3, Pop, Push 3, Try_pop, Close, Pop].
       \<not> selective c"
    by simp
  have h5: "list_all (\<lambda>c. \<not> selective c)
       [Push (1 :: int), Push 2, Push 3, Pop, Push 3, Try_pop, Close, Pop]"
    by simp
  from h1 h2 h3 h4 h5
    pops_return_pushes_in_order
      [of "[Push (1 :: int), Push 2, Push 3, Pop, Push 3, Try_pop, Close, Pop]"
        "FifoQueue_ctor 2" "[]" 13]
    pops_return_pushes_in_order [of "[]" "FifoQueue_ctor 3" "[1 :: int, 2, 3]" 0]
  show ?thesis by blast
qed

end
